theory Spec2Isabelle
  imports Main
begin

section \<open>The future core: state, callbacks, completion\<close>

text \<open>
  The enum \<open>FutureState\<close> and the class \<open>FutureImpl\<close> are declared in a header that is
  not part of the sources at hand; the core file uses the members \<open>state_\<close> and
  \<open>callbacks_\<close> of \<open>FutureImpl\<close>, the three enumerators and the predicate
  \<open>IsFutureFinished\<close>.
\<close>

datatype FutureState = PENDING | SUCCESS | FAILURE

text \<open>
  Modelled from the spec: \<open>IsFutureFinished\<close> is declared in the absent header; the
  data model calls \<open>SUCCESS\<close> and \<open>FAILURE\<close> "both terminal, collectively finished".
\<close>

definition IsFutureFinished :: "FutureState \<Rightarrow> bool" where
  "IsFutureFinished state = (state \<noteq> PENDING)"

text \<open>
  A core. The fields are the members \<open>state_\<close>, \<open>result_\<close> and \<open>callbacks_\<close> of the
  source, written here with the suffix \<open>_m\<close> (a name may not end in an underscore);
  likewise \<open>mutex_m\<close> below is the member \<open>mutex_\<close>. \<open>state_m\<close> and \<open>callbacks_m\<close>
  (a \<open>std::vector\<close> of callbacks, kept in registration order) are the fields the
  source reads and writes. \<open>result_m\<close> is the result slot of the data model ("the
  produced value or failure reason"); no function of the core file writes it, it is
  \<open>None\<close> until a handle stores a result. Callbacks are values of an arbitrary type
  \<open>'cb\<close>.
\<close>

record ('cb, 'r) FutureImpl =
  state_m :: FutureState
  result_m :: "'r option"
  callbacks_m :: "'cb list"

text \<open>
  The two mutexes the core file locks: the file-level \<open>global_waiter_mutex\<close> and the
  per-core member \<open>mutex_m\<close>.
\<close>

datatype mutex = global_waiter_mutex | mutex_m

text \<open>
  Each operation reports, in program order, what it did: the lock acquisitions and
  releases, the write of \<open>state_m\<close>, \<open>cv_.notify_all()\<close>, a \<open>push_back\<close> on the queue,
  the move of the queue out of the core, and each call of a callback together with the
  core the callback receives (\<open>*this\<close>, \<open>*self\<close>).
\<close>

datatype ('cb, 'r) event =
    Lock mutex
  | Unlock mutex
  | Write_state FutureState
  | Notify_all
  | Push_back 'cb
  | Move_callbacks
  | Invoke 'cb "('cb, 'r) FutureImpl"

text \<open>
  What running a callback does is a parameter \<open>run\<close>: a callback reads the core it is
  handed and transforms an environment \<open>'u\<close> (everything outside this core).
\<close>

type_synonym ('cb, 'r, 'u) runner = "'cb \<Rightarrow> ('cb, 'r) FutureImpl \<Rightarrow> 'u \<Rightarrow> 'u"

text \<open>\<open>FutureImpl::FutureImpl()\<close>, \<open>FutureImpl::Make\<close> and \<open>FutureImpl::MakeFinished\<close>.\<close>

definition FutureImpl_Make :: "('cb, 'r) FutureImpl" where
  "FutureImpl_Make = \<lparr>state_m = PENDING, result_m = None, callbacks_m = []\<rparr>"

definition FutureImpl_MakeFinished :: "FutureState \<Rightarrow> ('cb, 'r) FutureImpl" where
  "FutureImpl_MakeFinished state = FutureImpl_Make\<lparr>state_m := state\<rparr>"

text \<open>
  \<open>ConcreteFutureImpl::AddCallback\<close>: under \<open>mutex_m\<close>, a finished core releases the lock
  and calls the callback on \<open>*this\<close>; a pending core pushes the callback on the queue
  and the lock is released when the function returns.
\<close>

definition AddCallback ::
  "('cb, 'r, 'u) runner \<Rightarrow> 'cb \<Rightarrow> ('cb, 'r) FutureImpl \<Rightarrow> 'u
     \<Rightarrow> ('cb, 'r) FutureImpl \<times> 'u \<times> ('cb, 'r) event list" where
  "AddCallback run callback self u =
     (if IsFutureFinished (state_m self)
      then (self, run callback self u, [Lock mutex_m, Unlock mutex_m, Invoke callback self])
      else (self\<lparr>callbacks_m := callbacks_m self @ [callback]\<rparr>, u,
            [Lock mutex_m, Push_back callback, Unlock mutex_m]))"

text \<open>
  \<open>ConcreteFutureImpl::TryAddCallback\<close>: a finished core returns \<open>false\<close>; a pending one
  builds the callback with the factory, queues it and returns \<open>true\<close>.
\<close>

definition TryAddCallback ::
  "(unit \<Rightarrow> 'cb) \<Rightarrow> ('cb, 'r) FutureImpl
     \<Rightarrow> bool \<times> ('cb, 'r) FutureImpl \<times> ('cb, 'r) event list" where
  "TryAddCallback callback_factory self =
     (if IsFutureFinished (state_m self)
      then (False, self, [Lock mutex_m, Unlock mutex_m])
      else (True, self\<lparr>callbacks_m := callbacks_m self @ [callback_factory ()]\<rparr>,
            [Lock mutex_m, Push_back (callback_factory ()), Unlock mutex_m]))"

text \<open>
  The loop \<open>for (auto& callback : callbacks) std::move(callback)(*self)\<close>: every element
  of the moved-out vector is called once, front to back, on the same core.
\<close>

fun run_callbacks ::
  "('cb, 'r, 'u) runner \<Rightarrow> 'cb list \<Rightarrow> ('cb, 'r) FutureImpl \<Rightarrow> 'u
     \<Rightarrow> 'u \<times> ('cb, 'r) event list" where
  "run_callbacks run [] self u = (u, [])"
| "run_callbacks run (callback # callbacks) self u =
     (let u1 = run callback self u;
          (u2, evs) = run_callbacks run callbacks self u1
      in (u2, Invoke callback self # evs))"

text \<open>
  \<open>ConcreteFutureImpl::DoMarkFinishedOrFailed\<close>. The block takes the global waiter mutex,
  then \<open>mutex_m\<close>, writes \<open>state_m\<close> and leaves the block (the locks are released in reverse
  order); then \<open>notify_all\<close>; then the queue is moved out of the core, which leaves the
  member vector empty; then the loop over the moved-out callbacks. The function has no
  test of the current state and no failing path.
\<close>

definition DoMarkFinishedOrFailed ::
  "('cb, 'r, 'u) runner \<Rightarrow> FutureState \<Rightarrow> ('cb, 'r) FutureImpl \<Rightarrow> 'u
     \<Rightarrow> ('cb, 'r) FutureImpl \<times> 'u \<times> ('cb, 'r) event list" where
  "DoMarkFinishedOrFailed run state self0 u =
     (let self1 = self0\<lparr>state_m := state\<rparr>;
          callbacks = callbacks_m self1;
          self = self1\<lparr>callbacks_m := []\<rparr>;
          (u', evs) = run_callbacks run callbacks self u
      in (self, u',
          [Lock global_waiter_mutex, Lock mutex_m, Write_state state,
           Unlock mutex_m, Unlock global_waiter_mutex, Notify_all, Move_callbacks] @ evs))"

definition DoMarkFinished ::
  "('cb, 'r, 'u) runner \<Rightarrow> ('cb, 'r) FutureImpl \<Rightarrow> 'u
     \<Rightarrow> ('cb, 'r) FutureImpl \<times> 'u \<times> ('cb, 'r) event list" where
  "DoMarkFinished run self u = DoMarkFinishedOrFailed run SUCCESS self u"

definition DoMarkFailed ::
  "('cb, 'r, 'u) runner \<Rightarrow> ('cb, 'r) FutureImpl \<Rightarrow> 'u
     \<Rightarrow> ('cb, 'r) FutureImpl \<times> 'u \<times> ('cb, 'r) event list" where
  "DoMarkFailed run self u = DoMarkFinishedOrFailed run FAILURE self u"

text \<open>
  Reading a report: \<open>invocations held evs\<close> lists the callback calls of \<open>evs\<close> in order,
  each with the core it received and the mutexes the calling thread held at that
  moment, \<open>held\<close> being those held when the report starts.
\<close>

fun invocations ::
  "mutex list \<Rightarrow> ('cb, 'r) event list \<Rightarrow> ('cb \<times> ('cb, 'r) FutureImpl \<times> mutex list) list" where
  "invocations held [] = []"
| "invocations held (Lock m # evs) = invocations (m # held) evs"
| "invocations held (Unlock m # evs) = invocations (remove1 m held) evs"
| "invocations held (Invoke cb self # evs) = (cb, self, held) # invocations held evs"
| "invocations held (ev # evs) = invocations held evs"

text \<open>The queue pushes of a report, each with the mutexes held when it happened.\<close>

fun pushes :: "mutex list \<Rightarrow> ('cb, 'r) event list \<Rightarrow> ('cb \<times> mutex list) list" where
  "pushes held [] = []"
| "pushes held (Lock m # evs) = pushes (m # held) evs"
| "pushes held (Unlock m # evs) = pushes (remove1 m held) evs"
| "pushes held (Push_back cb # evs) = (cb, held) # pushes held evs"
| "pushes held (ev # evs) = pushes held evs"

text \<open>Registering a list of callbacks one after the other with \<open>AddCallback\<close>.\<close>

fun AddCallbacks ::
  "('cb, 'r, 'u) runner \<Rightarrow> 'cb list \<Rightarrow> ('cb, 'r) FutureImpl \<Rightarrow> 'u
     \<Rightarrow> ('cb, 'r) FutureImpl \<times> 'u \<times> ('cb, 'r) event list" where
  "AddCallbacks run [] self u = (self, u, [])"
| "AddCallbacks run (cb # cbs) self u =
     (let (self1, u1, evs1) = AddCallback run cb self u;
          (self2, u2, evs2) = AddCallbacks run cbs self1 u1
      in (self2, u2, evs1 @ evs2))"

text \<open>
  A runner for concrete runs: the environment is a log, and a callback appends its own
  name and the state it reads from the core.
\<close>

definition log_call :: "(nat, 'r, (nat \<times> FutureState) list) runner" where
  "log_call cb self u = u @ [(cb, state_m self)]"

text \<open>A fresh core on which callbacks 1 and 2 were registered, and the same core completed.\<close>

definition two_waiting :: "(nat, nat) FutureImpl" where
  "two_waiting = fst (AddCallbacks log_call [1, 2] FutureImpl_Make [])"

definition two_done :: "(nat, nat) FutureImpl" where
  "two_done = fst (DoMarkFinished log_call two_waiting [])"

section \<open>Status and Result\<close>

text \<open>
  The status codes are the enumerators that \<open>Status::CodeAsString\<close> switches over.
  A \<open>Status\<close> holds a pointer \<open>state_\<close> to a \<open>State\<close> (code, message, optional
  detail); the null pointer is the OK status, as \<open>CodeAsString\<close> and \<open>ToString\<close> read
  it. The two-argument constructor allocates a state without detail.
\<close>

datatype StatusCode =
    OK | OutOfMemory | KeyError | TypeError | Invalid | Cancelled | IOError
  | CapacityError | IndexError | UnknownError | NotImplemented | SerializationError
  | CodeGenError | ExpressionValidationError | ExecutionError

record Status_State =
  code :: StatusCode
  msg :: string
  detail :: "string option"

type_synonym Status = "Status_State option"

definition Status_ctor :: "StatusCode \<Rightarrow> string \<Rightarrow> Status" where
  "Status_ctor c m = Some \<lparr>code = c, msg = m, detail = None\<rparr>"

text \<open>
  Modelled from the spec: the header that declares \<open>Status::OK\<close>, \<open>Status::ok\<close> and
  \<open>Status::Invalid\<close> is absent. The OK status is the one without state, \<open>ok\<close> tests
  for it, and \<open>Invalid\<close> builds the error of kind "invalid" with the given message.
\<close>

definition Status_OK :: Status where
  "Status_OK = None"

definition Status_ok :: "Status \<Rightarrow> bool" where
  "Status_ok s = (s = None)"

definition Status_Invalid :: "string \<Rightarrow> Status" where
  "Status_Invalid m = Status_ctor Invalid m"

text \<open>
  Modelled from the spec: \<open>Result<T>\<close> is declared in an absent header; it is either a
  value or an error status ("ok" or "error(kind, message)"), and converts implicitly
  from a \<open>Status\<close>.
\<close>

datatype 'a Result = Value 'a | Error Status

fun Result_status :: "'a Result \<Rightarrow> Status" where
  "Result_status (Value v) = Status_OK"
| "Result_status (Error s) = s"

definition Result_ok :: "'a Result \<Rightarrow> bool" where
  "Result_ok r = Status_ok (Result_status r)"

section \<open>Callables, executors, promises, lazy futures\<close>

text \<open>
  A callable of the source (\<open>std::function\<close>) is a function that, besides its arguments
  and its result, takes the environment \<open>'u\<close> it may change and returns the new one.
  \<open>Task\<close> is \<open>void()\<close>, \<open>Consumer<T>\<close> is \<open>void(Result<T>)\<close>, \<open>MapTask<T, V>\<close> is
  \<open>Result<V>(Result<T>)\<close>. The alias \<open>Supplier<T>\<close> is declared as a function of a
  \<open>Promise<T>\<close>, but \<open>Compose\<close> and \<open>ConsumeAsync\<close> call a supplier without arguments
  and pass on what it returns; the model follows the calls.
\<close>

type_synonym 'u Task = "'u \<Rightarrow> 'u"
type_synonym ('a, 'u) Consumer = "'a Result \<Rightarrow> 'u \<Rightarrow> 'u"
type_synonym ('a, 'u) Supplier = "'u \<Rightarrow> 'a Result \<times> 'u"
type_synonym ('a, 'b, 'u) MapTask = "'a Result \<Rightarrow> 'u \<Rightarrow> 'b Result \<times> 'u"

text \<open>
  The two executors. A \<open>ThreadPerTaskExecutor\<close> owns the vector \<open>threads\<close>; a thread is
  represented by the task it was started with.
\<close>

datatype 'u Executor = InlineExecutor | ThreadPerTaskExecutor "'u Task list"

text \<open>
  \<open>Spawn\<close>: the inline executor calls the task at once, on the calling thread; the
  thread-per-task executor starts a new thread with the task and appends it to
  \<open>threads\<close>, and the calling thread goes on without running the task.
\<close>

fun Spawn :: "'u Task \<Rightarrow> 'u Executor \<Rightarrow> 'u \<Rightarrow> 'u Executor \<times> 'u" where
  "Spawn task InlineExecutor u = (InlineExecutor, task u)"
| "Spawn task (ThreadPerTaskExecutor threads) u = (ThreadPerTaskExecutor (threads @ [task]), u)"





text \<open>
  \<open>Promise<T>\<close> holds one \<open>Consumer<T>\<close>, \<open>callback_\<close>, which may be empty (\<open>None\<close>).
  The destructor tests it and, when it is not empty, calls it with the status
  \<open>Status::Invalid("Abandoned promise")\<close>. \<open>Fulfill\<close> calls it with the value and then
  assigns the empty function; calling an empty \<open>std::function\<close> throws
  \<open>std::bad_function_call\<close>. Each operation also reports the arguments with which it
  called the held callable.
\<close>

datatype error = bad_function_call

record ('a, 'u) Promise =
  callback_m :: "('a, 'u) Consumer option"

definition Promise_ctor :: "('a, 'u) Consumer option \<Rightarrow> ('a, 'u) Promise" where
  "Promise_ctor callback = \<lparr>callback_m = callback\<rparr>"

definition Promise_dtor :: "('a, 'u) Promise \<Rightarrow> 'u \<Rightarrow> 'u \<times> 'a Result list" where
  "Promise_dtor p u =
     (case callback_m p of
        Some cb \<Rightarrow> (cb (Error (Status_Invalid ''Abandoned promise'')) u,
                    [Error (Status_Invalid ''Abandoned promise'')])
      | None \<Rightarrow> (u, []))"

definition Fulfill ::
  "'a Result \<Rightarrow> ('a, 'u) Promise \<Rightarrow> 'u \<Rightarrow> error + (('a, 'u) Promise \<times> 'u \<times> 'a Result list)" where
  "Fulfill val p u =
     (case callback_m p of
        None \<Rightarrow> Inl bad_function_call
      | Some cb \<Rightarrow> Inr (p\<lparr>callback_m := None\<rparr>, cb val u, [val]))"

text \<open>
  A whole lifetime of a promise: construction with a callable, any number of \<open>Fulfill\<close>
  calls (one that throws leaves the promise as it was), destruction. The result is the
  final environment and the arguments of all calls of the held callable, in order.
\<close>

fun Fulfill_all ::
  "'a Result list \<Rightarrow> ('a, 'u) Promise \<Rightarrow> 'u \<Rightarrow> ('a, 'u) Promise \<times> 'u \<times> 'a Result list" where
  "Fulfill_all [] p u = (p, u, [])"
| "Fulfill_all (val # vals) p u =
     (case Fulfill val p u of
        Inl e \<Rightarrow> Fulfill_all vals p u
      | Inr (p1, u1, calls1) \<Rightarrow>
          (let (p2, u2, calls2) = Fulfill_all vals p1 u1 in (p2, u2, calls1 @ calls2)))"

definition Promise_lifetime ::
  "('a, 'u) Consumer option \<Rightarrow> 'a Result list \<Rightarrow> 'u \<Rightarrow> 'u \<times> 'a Result list" where
  "Promise_lifetime callback vals u =
     (let (p, u1, calls1) = Fulfill_all vals (Promise_ctor callback) u;
          (u2, calls2) = Promise_dtor p u1
      in (u2, calls1 @ calls2))"

text \<open>
  \<open>Compose\<close>: the returned supplier is the struct \<open>Composition\<close>, whose call operator
  calls the supplier and then the continuation on what the supplier returned.
\<close>

definition Compose :: "('a, 'u) Supplier \<Rightarrow> ('a, 'b, 'u) MapTask \<Rightarrow> ('b, 'u) Supplier" where
  "Compose supplier continuation = (\<lambda>u. case supplier u of (r, u1) \<Rightarrow> continuation r u1)"

text \<open>
  \<open>LazyFuture<T>\<close>: a supplier and a pointer to an executor (an address into the table
  of executors). \<open>Then\<close> builds the composed supplier and a new lazy future on the same
  executor pointer; it calls nothing, so it is a function of the future alone.
  \<open>ConsumeAsync\<close> builds the task \<open>FutureRunningTask\<close>, whose call operator calls the
  supplier and then the consumer on what it returned, and hands it to \<open>Spawn\<close> of the
  executor the pointer designates.
\<close>

record ('a, 'u) LazyFuture =
  supplier_m :: "('a, 'u) Supplier"
  executor_m :: nat

definition FutureRunningTask :: "('a, 'u) Supplier \<Rightarrow> ('a, 'u) Consumer \<Rightarrow> 'u Task" where
  "FutureRunningTask supplier consumer = (\<lambda>u. case supplier u of (r, u1) \<Rightarrow> consumer r u1)"

definition ConsumeAsync ::
  "('a, 'u) Consumer \<Rightarrow> ('a, 'u) LazyFuture \<Rightarrow> (nat \<Rightarrow> 'u Executor) \<Rightarrow> 'u
     \<Rightarrow> (nat \<Rightarrow> 'u Executor) \<times> 'u" where
  "ConsumeAsync consumer lf executors u =
     (let executor = executor_m lf;
          task = FutureRunningTask (supplier_m lf) consumer;
          (ex', u') = Spawn task (executors executor) u
      in (executors(executor := ex'), u'))"

definition Then :: "('a, 'b, 'u) MapTask \<Rightarrow> ('a, 'u) LazyFuture \<Rightarrow> ('b, 'u) LazyFuture" where
  "Then map_func lf =
     (let continued = Compose (supplier_m lf) map_func
      in \<lparr>supplier_m = continued, executor_m = executor_m lf\<rparr>)"

text \<open>
  Callables for concrete runs. The environment is a log of strings: the supplier
  returns 5, the continuation adds one to a value, the consumer writes down whether it
  received a value or an error; each notes that it ran.
\<close>

definition supply_five :: "(nat, string list) Supplier" where
  "supply_five u = (Value 5, u @ [''supplier''])"

fun add_one :: "(nat, nat, string list) MapTask" where
  "add_one (Value n) u = (Value (Suc n), u @ [''continuation''])"
| "add_one (Error s) u = (Error s, u @ [''continuation''])"

fun note_result :: "(nat, string list) Consumer" where
  "note_result (Value n) u = u @ [''consumer: value '' @ replicate n (CHR ''I'')]"
| "note_result (Error s) u = u @ [''consumer: error'']"


definition inline_only :: "nat \<Rightarrow> string list Executor" where
  "inline_only a = InlineExecutor"

section \<open>The handle \<open>Future<>\<close> and the combinators\<close>

text \<open>
  Modelled from the spec: the class template \<open>Future\<close> is declared in the absent
  header; it is the "thin typed facade" over the core. For \<open>Future<>\<close> the stored
  result is a status. \<open>Make\<close> gives a pending core and \<open>MakeFinished\<close> a pre-resolved
  one; \<open>is_finished\<close> probes the state; \<open>MarkFinished\<close> writes the result and then
  completes the core, as success for an ok status and as failure otherwise;
  \<open>AddCallback\<close> forwards to the core, the callback being handed the status stored in
  the core it is called on.
\<close>

type_synonym 'cb Future = "('cb, Status) FutureImpl"

definition Future_Make :: "'cb Future" where
  "Future_Make = FutureImpl_Make"

definition Future_MakeFinished :: "Status \<Rightarrow> 'cb Future" where
  "Future_MakeFinished s =
     (FutureImpl_MakeFinished (if Status_ok s then SUCCESS else FAILURE))\<lparr>result_m := Some s\<rparr>"

definition is_finished :: "'cb Future \<Rightarrow> bool" where
  "is_finished fut = IsFutureFinished (state_m fut)"

definition Future_MarkFinished ::
  "('cb, Status, 'u) runner \<Rightarrow> Status \<Rightarrow> 'cb Future \<Rightarrow> 'u
     \<Rightarrow> 'cb Future \<times> 'u \<times> ('cb, Status) event list" where
  "Future_MarkFinished run s fut u =
     (let fut1 = fut\<lparr>result_m := Some s\<rparr>
      in if Status_ok s then DoMarkFinished run fut1 u else DoMarkFailed run fut1 u)"

definition Future_AddCallback ::
  "('cb, Status, 'u) runner \<Rightarrow> 'cb \<Rightarrow> 'cb Future \<Rightarrow> 'u
     \<Rightarrow> 'cb Future \<times> 'u \<times> ('cb, Status) event list" where
  "Future_AddCallback run on_complete fut u = AddCallback run on_complete fut u"

text \<open>
  \<open>AllComplete\<close>. The shared \<open>State\<close> holds the counter \<open>n_remaining\<close>, an atomic
  \<open>size_t\<close> (64 bits; \<open>fetch_sub\<close> wraps); \<open>out\<close> is the future the function returns;
  both are captured by the lambda registered on every input. The world the lambda
  acts on consists of the counter, the core of \<open>out\<close>, and the environment \<open>user\<close> of
  all other callbacks. The callbacks queued on \<open>out\<close> have type \<open>'o\<close> and are run by
  \<open>run_out\<close>.
\<close>

record ('o, 'u) AllComplete_world =
  n_remaining :: nat
  out :: "'o Future"
  user :: 'u

text \<open>
  The body of the lambda. On a failed status it takes \<open>state->mutex\<close> and, if \<open>out\<close>
  is not finished, marks it finished with the status. On an ok status it decrements
  the counter; only the call that reads 1 marks \<open>out\<close> finished (with the default, OK
  status). The mutex of \<open>State\<close> orders the failing calls of different threads; within
  one thread taking it changes nothing, and the model omits it.
\<close>

definition AllComplete_lambda_body ::
  "('o, Status, 'u) runner \<Rightarrow> Status \<Rightarrow> ('o, 'u) AllComplete_world \<Rightarrow> ('o, 'u) AllComplete_world" where
  "AllComplete_lambda_body run_out status w =
     (if \<not> Status_ok status then
        (if \<not> is_finished (out w) then
           (let (out', u', evs) = Future_MarkFinished run_out status (out w) (user w)
            in w\<lparr>out := out', user := u'\<rparr>)
         else w)
      else
        (let old = n_remaining w;
             w1 = w\<lparr>n_remaining := (old + 2 ^ 64 - 1) mod 2 ^ 64\<rparr>
         in if old \<noteq> 1 then w1
            else (let (out', u', evs) = Future_MarkFinished run_out Status_OK (out w1) (user w1)
                  in w1\<lparr>out := out', user := u'\<rparr>)))"

text \<open>
  The callbacks queued on an input future: the lambda of this \<open>AllComplete\<close> call, or any
  other callback \<open>Other c\<close>, which acts on the environment \<open>user\<close> only. The lambda
  is handed the status stored in the core it is called on (a finished core without a
  stored result is not produced by the handle; the lambda is then not run).
\<close>

datatype 'c Callback = Other 'c | AllComplete_lambda

definition AllComplete_run ::
  "('c \<Rightarrow> 'c Callback Future \<Rightarrow> 'u \<Rightarrow> 'u) \<Rightarrow> ('o, Status, 'u) runner
     \<Rightarrow> ('c Callback, Status, ('o, 'u) AllComplete_world) runner" where
  "AllComplete_run run_other run_out cb self w =
     (case cb of
        Other c \<Rightarrow> w\<lparr>user := run_other c self (user w)\<rparr>
      | AllComplete_lambda \<Rightarrow>
          (case result_m self of
             Some status \<Rightarrow> AllComplete_lambda_body run_out status w
           | None \<Rightarrow> w))"

text \<open>
  The input futures are handles to cores that live in a heap (a list of cores; a handle
  is a position in it, and the same handle may occur twice in \<open>futures\<close>). The loop
  registers the lambda on every input in turn.
\<close>

fun AllComplete_loop ::
  "('c Callback, Status, ('o, 'u) AllComplete_world) runner \<Rightarrow> nat list
     \<Rightarrow> 'c Callback Future list \<Rightarrow> ('o, 'u) AllComplete_world
     \<Rightarrow> 'c Callback Future list \<times> ('o, 'u) AllComplete_world" where
  "AllComplete_loop run [] heap w = (heap, w)"
| "AllComplete_loop run (future # futures) heap w =
     (let (fut', w', evs) = Future_AddCallback run AllComplete_lambda (heap ! future) w
      in AllComplete_loop run futures (heap[future := fut']) w')"

text \<open>
  \<open>AllComplete\<close>: an empty vector returns \<open>Future<>::MakeFinished()\<close> at once (no \<open>State\<close>
  is made on that path; the counter of the returned world is a placeholder). Otherwise
  the counter starts at the number of futures, \<open>out\<close> is a new pending future, and the
  loop runs.
\<close>

definition AllComplete ::
  "('c \<Rightarrow> 'c Callback Future \<Rightarrow> 'u \<Rightarrow> 'u) \<Rightarrow> ('o, Status, 'u) runner \<Rightarrow> nat list
     \<Rightarrow> 'c Callback Future list \<Rightarrow> 'u
     \<Rightarrow> 'c Callback Future list \<times> ('o, 'u) AllComplete_world" where
  "AllComplete run_other run_out futures heap u =
     (if futures = [] then
        (heap, \<lparr>n_remaining = 0, out = Future_MakeFinished Status_OK, user = u\<rparr>)
      else
        AllComplete_loop (AllComplete_run run_other run_out) futures heap
          \<lparr>n_remaining = length futures mod 2 ^ 64, out = Future_Make, user = u\<rparr>)"

text \<open>
  The producer of input \<open>i\<close> completes it with status \<open>s\<close>; a schedule is a sequence of
  such completions, carried out one after the other.
\<close>

definition complete ::
  "('c Callback, Status, ('o, 'u) AllComplete_world) runner \<Rightarrow> nat \<times> Status
     \<Rightarrow> 'c Callback Future list \<times> ('o, 'u) AllComplete_world
     \<Rightarrow> 'c Callback Future list \<times> ('o, 'u) AllComplete_world" where
  "complete run c hw =
     (case c of (i, s) \<Rightarrow> (case hw of (heap, w) \<Rightarrow>
        (let (fut', w', evs) = Future_MarkFinished run s (heap ! i) w
         in (heap[i := fut'], w'))))"

definition run_schedule ::
  "('c Callback, Status, ('o, 'u) AllComplete_world) runner \<Rightarrow> (nat \<times> Status) list
     \<Rightarrow> 'c Callback Future list \<times> ('o, 'u) AllComplete_world
     \<Rightarrow> 'c Callback Future list \<times> ('o, 'u) AllComplete_world" where
  "run_schedule run sched hw = fold (complete run) sched hw"

text \<open>
  The statuses the lambda meets, in the order it meets them: first those of the inputs
  already finished when \<open>AllComplete\<close> registers on them (in the order of \<open>futures\<close>),
  then those of the schedule. A handle that occurs \<open>k\<close> times in \<open>futures\<close> has the
  lambda registered \<open>k\<close> times, so its completion is met \<open>k\<close> times.
\<close>

definition already :: "'cb Future list \<Rightarrow> nat list \<Rightarrow> Status list" where
  "already heap futures =
     concat (map (\<lambda>i. if is_finished (heap ! i)
                       then (case result_m (heap ! i) of Some s \<Rightarrow> [s] | None \<Rightarrow> [])
                       else []) futures)"

definition met :: "nat list \<Rightarrow> (nat \<times> Status) list \<Rightarrow> Status list" where
  "met futures sched = concat (map (\<lambda>c. replicate (count_list futures (fst c)) (snd c)) sched)"

definition observed :: "'cb Future list \<Rightarrow> nat list \<Rightarrow> (nat \<times> Status) list \<Rightarrow> Status list" where
  "observed heap futures sched = already heap futures @ met futures sched"

text \<open>
  What \<open>out\<close> must be after the lambda met the statuses \<open>obs\<close>, out of \<open>N\<close> inputs:
  failed with the first failing status if there is one, succeeded if all \<open>N\<close> came and
  were ok, pending otherwise.
\<close>

definition resolved_as :: "nat \<Rightarrow> Status list \<Rightarrow> 'o Future \<Rightarrow> bool" where
  "resolved_as N obs fut =
     (case find (\<lambda>s. \<not> Status_ok s) obs of
        Some s \<Rightarrow> state_m fut = FAILURE \<and> result_m fut = Some s
      | None \<Rightarrow>
          if length obs = N
          then state_m fut = SUCCESS \<and> result_m fut = Some Status_OK
          else state_m fut = PENDING \<and> result_m fut = None)"

definition tracks :: "nat \<Rightarrow> Status list \<Rightarrow> ('o, 'u) AllComplete_world \<Rightarrow> bool" where
  "tracks N obs w =
     (n_remaining w = N - length (filter Status_ok obs) \<and> resolved_as N obs (out w))"

text \<open>
  An input on which the lambda waits: pending, with the lambda queued as many times as
  the handle occurs in \<open>futures\<close>.
\<close>

definition waiting :: "nat list \<Rightarrow> 'c Callback Future list \<Rightarrow> nat \<Rightarrow> bool" where
  "waiting futures heap i =
     (i < length heap \<and> state_m (heap ! i) = PENDING \<and>
      count_list (callbacks_m (heap ! i)) AllComplete_lambda = count_list futures i)"

text \<open>
  Concrete data for runs of \<open>AllComplete\<close>: a heap of three pending inputs, the second
  with a callback of its own; callbacks other than the lambda write their name down.
\<close>

definition three_pending :: "nat Callback Future list" where
  "three_pending = [Future_Make, Future_Make\<lparr>callbacks_m := [Other 7]\<rparr>, Future_Make]"

definition note_other :: "nat \<Rightarrow> nat Callback Future \<Rightarrow> nat list \<Rightarrow> nat list" where
  "note_other c self u = u @ [c]"

definition note_out :: "(nat, Status, nat list) runner" where
  "note_out cb self u = u @ [cb]"

definition mixed_schedule :: "(nat \<times> Status) list" where
  "mixed_schedule = [(1, Status_OK), (2, Status_Invalid ''second''), (0, Status_Invalid ''first'')]"

definition ok_schedule :: "(nat \<times> Status) list" where
  "ok_schedule = [(2, Status_OK), (0, Status_OK), (1, Status_OK)]"

text \<open>
  \<open>AllFinished\<close> is \<open>All(futures).Then(lambda)\<close>. The lambda is in the source: it walks
  the results front to back and returns the status of the first one that is not ok,
  and \<open>Status::OK()\<close> if there is none.
\<close>

fun AllFinished_lambda :: "'a Result list \<Rightarrow> Status" where
  "AllFinished_lambda [] = Status_OK"
| "AllFinished_lambda (res # results) =
     (if \<not> Result_ok res then Result_status res else AllFinished_lambda results)"

text \<open>
  Modelled from the spec: \<open>internal::Empty::ToResult\<close>, the result type of \<open>Future<>\<close>, is
  declared in the absent header: an ok status becomes the empty value, any other
  status the error it is.
\<close>

definition ToResult :: "Status \<Rightarrow> unit Result" where
  "ToResult s = (if Status_ok s then Value () else Error s)"

text \<open>
  Modelled from the spec: what a \<open>Future<>\<close> handle shows of its core: nothing
  (\<open>None\<close>) while the core is pending, the stored result once it is finished ("readable
  by any party only after observing a finished state").
\<close>

definition Future_result :: "'cb Future \<Rightarrow> unit Result option" where
  "Future_result fut = (if is_finished fut then map_option ToResult (result_m fut) else None)"

text \<open>
  Modelled from the spec: the combinator \<open>All\<close> and \<open>Future::Then\<close> are declared in the
  absent header. \<open>All\<close> is the "collect all results" combinator: its future resolves
  only after all inputs have finished and then holds every individual result, in the
  order of the inputs. \<open>Then\<close> gives a future that is resolved, with the value of the
  mapping function, when the source is. A future is described by what it shows:
  \<open>None\<close> while pending, its value afterwards.
\<close>

definition All :: "'cb Future list \<Rightarrow> unit Result list option" where
  "All futures = those (map Future_result futures)"

definition Future_Then :: "'a option \<Rightarrow> ('a \<Rightarrow> 'b) \<Rightarrow> 'b option" where
  "Future_Then fut map_fn = map_option map_fn fut"

definition AllFinished :: "'cb Future list \<Rightarrow> Status option" where
  "AllFinished futures = Future_Then (All futures) AllFinished_lambda"

text \<open>Three finished inputs, the second and third failed, and the same with one pending.\<close>

definition three_finished :: "nat Future list" where
  "three_finished =
     [Future_MakeFinished Status_OK, Future_MakeFinished (Status_Invalid ''b''),
      Future_MakeFinished (Status_Invalid ''c'')]"

section \<open>Properties of the core\<close>

lemma run_callbacks_env:
  "fst (run_callbacks run cbs self u) = fold (\<lambda>cb. run cb self) cbs u"
  by (induction cbs arbitrary: u) (simp_all add: Let_def split_beta)

lemma run_callbacks_events:
  "snd (run_callbacks run cbs self u) = map (\<lambda>cb. Invoke cb self) cbs"
  by (induction cbs arbitrary: u) (simp_all add: Let_def split_beta)

lemma invocations_Invokes:
  "invocations held (map (\<lambda>cb. Invoke cb self) cbs) = map (\<lambda>cb. (cb, self, held)) cbs"
  by (induction cbs) simp_all

lemma DoMarkFinishedOrFailed_eq:
  "DoMarkFinishedOrFailed run state self u =
     (self\<lparr>state_m := state, callbacks_m := []\<rparr>,
      fold (\<lambda>cb. run cb (self\<lparr>state_m := state, callbacks_m := []\<rparr>)) (callbacks_m self) u,
      [Lock global_waiter_mutex, Lock mutex_m, Write_state state,
       Unlock mutex_m, Unlock global_waiter_mutex, Notify_all, Move_callbacks]
      @ map (\<lambda>cb. Invoke cb (self\<lparr>state_m := state, callbacks_m := []\<rparr>)) (callbacks_m self))"
  using run_callbacks_env [of run "callbacks_m self" "self\<lparr>state_m := state, callbacks_m := []\<rparr>" u]
        run_callbacks_events [of run "callbacks_m self" "self\<lparr>state_m := state, callbacks_m := []\<rparr>" u]
  by (simp add: DoMarkFinishedOrFailed_def Let_def split_beta prod_eq_iff)

lemma AddCallbacks_pending:
  "state_m self = PENDING \<Longrightarrow>
   AddCallbacks run cbs self u =
     (self\<lparr>callbacks_m := callbacks_m self @ cbs\<rparr>, u,
      concat (map (\<lambda>cb. [Lock mutex_m, Push_back cb, Unlock mutex_m]) cbs))"
  by (induction cbs arbitrary: self)
     (simp_all add: AddCallback_def IsFutureFinished_def Let_def)

lemma invocations_pushes_only:
  "invocations held (concat (map (\<lambda>cb. [Lock mutex_m, Push_back cb, Unlock mutex_m]) cbs)) = []"
  by (induction cbs) simp_all

lemma pushes_Invokes:
  "pushes held (map (\<lambda>cb. Invoke cb self) cbs) = []"
  by (induction cbs) simp_all

lemma two_waiting_eq:
  "two_waiting = \<lparr>state_m = PENDING, result_m = None, callbacks_m = [1, 2]\<rparr>"
  by (simp add: two_waiting_def AddCallback_def FutureImpl_Make_def IsFutureFinished_def)

lemma two_done_eq:
  "two_done = \<lparr>state_m = SUCCESS, result_m = None, callbacks_m = []\<rparr>"
  by (simp add: two_done_def two_waiting_eq DoMarkFinished_def DoMarkFinishedOrFailed_eq)

text \<open>
  C1 (as stated): \<open>mark_finished\<close>/\<open>mark_failed\<close> on an already-finished core fails
  instead of silently changing the state. The source has no such check: the core
  completed with success above is marked failed by a second call, which returns
  normally and leaves the core in state \<open>FAILURE\<close>.
\<close>

theorem second_mark_counterexample:
  "state_m two_done = SUCCESS \<and>
   DoMarkFailed log_call two_done [(1, SUCCESS), (2, SUCCESS)] =
     (\<lparr>state_m = FAILURE, result_m = None, callbacks_m = []\<rparr>,
      [(1, SUCCESS), (2, SUCCESS)],
      [Lock global_waiter_mutex, Lock mutex_m, Write_state FAILURE,
       Unlock mutex_m, Unlock global_waiter_mutex, Notify_all, Move_callbacks])"
  by (simp add: two_done_eq DoMarkFailed_def DoMarkFinishedOrFailed_eq)

text \<open>
  C1 (amended): \<open>DoMarkFinishedOrFailed\<close> does not test the current state and has no
  failing path. A second call on a core that a first call completed returns normally:
  the state becomes the one requested by the second call, the queue, emptied by the
  first call, stays empty, so no callback runs again and the environment is unchanged;
  the second call only takes and releases the locks, writes the state and notifies.
\<close>

theorem second_mark_overwrites:
  assumes "DoMarkFinishedOrFailed run s1 self u = (self1, u1, evs1)"
      and "DoMarkFinishedOrFailed run s2 self1 u1 = (self2, u2, evs2)"
  shows "state_m self2 = s2 \<and> callbacks_m self2 = [] \<and> result_m self2 = result_m self \<and>
         u2 = u1 \<and> invocations held evs2 = [] \<and>
         evs2 = [Lock global_waiter_mutex, Lock mutex_m, Write_state s2,
                 Unlock mutex_m, Unlock global_waiter_mutex, Notify_all, Move_callbacks]"
proof -
  from assms(1) have self1: "self1 = self\<lparr>state_m := s1, callbacks_m := []\<rparr>"
    by (simp add: DoMarkFinishedOrFailed_eq)
  from assms(2) show ?thesis
    unfolding self1 DoMarkFinishedOrFailed_eq by auto
qed

theorem second_mark_overwrites_witness:
  "DoMarkFinishedOrFailed log_call SUCCESS (two_waiting :: (nat, nat) FutureImpl) [] =
     (two_done, [(1, SUCCESS), (2, SUCCESS)],
      [Lock global_waiter_mutex, Lock mutex_m, Write_state SUCCESS,
       Unlock mutex_m, Unlock global_waiter_mutex, Notify_all, Move_callbacks,
       Invoke 1 two_done, Invoke 2 two_done]) \<and>
   state_m (fst (DoMarkFinishedOrFailed log_call FAILURE (two_done :: (nat, nat) FutureImpl)
                   [(1, SUCCESS), (2, SUCCESS)])) = FAILURE \<and>
   fst (snd (DoMarkFinishedOrFailed log_call FAILURE (two_done :: (nat, nat) FutureImpl)
               [(1, SUCCESS), (2, SUCCESS)])) = [(1, SUCCESS), (2, SUCCESS)]"
proof -
  have first: "DoMarkFinishedOrFailed log_call SUCCESS (two_waiting :: (nat, nat) FutureImpl) [] =
     (two_done, [(1, SUCCESS), (2, SUCCESS)],
      [Lock global_waiter_mutex, Lock mutex_m, Write_state SUCCESS,
       Unlock mutex_m, Unlock global_waiter_mutex, Notify_all, Move_callbacks,
       Invoke 1 two_done, Invoke 2 two_done])"
    by (simp add: two_done_eq two_waiting_eq DoMarkFinishedOrFailed_eq log_call_def)
  obtain c v es where second:
    "DoMarkFinishedOrFailed log_call FAILURE (two_done :: (nat, nat) FutureImpl)
       [(1, SUCCESS), (2, SUCCESS)] = (c, v, es)"
    by (cases "DoMarkFinishedOrFailed log_call FAILURE (two_done :: (nat, nat) FutureImpl)
                 [(1, SUCCESS), (2, SUCCESS)]") auto
  from second_mark_overwrites [OF first second, of "[]"] first second
  show ?thesis by simp
qed

text \<open>
  C3: the callbacks registered on a pending core before its completion (the ones
  already queued and the ones \<open>AddCallback\<close> adds) are not called by the registration;
  the completing call calls each of them exactly once, in registration order, and
  nothing else. Every one of them receives the core with the new state written, the
  stored result in place and the queue moved out. The calls come after the state
  write, after the releases of both mutexes and after the notification: at each call
  the thread holds exactly the mutexes \<open>held\<close> it held when the completing call began,
  so the call holds none of its own, and none at all when it began with none.
\<close>

theorem callbacks_fire_once_in_order:
  assumes "state_m self = PENDING"
      and "AddCallbacks run cbs self u = (self1, u1, evs1)"
      and "DoMarkFinishedOrFailed run state self1 u1 = (self2, u2, evs2)"
  shows "invocations held evs1 = [] \<and> u1 = u \<and>
         self2 = self\<lparr>state_m := state, callbacks_m := []\<rparr> \<and>
         state_m self2 = state \<and> result_m self2 = result_m self \<and>
         invocations held evs2 = map (\<lambda>cb. (cb, self2, held)) (callbacks_m self @ cbs) \<and>
         evs2 = [Lock global_waiter_mutex, Lock mutex_m, Write_state state,
                 Unlock mutex_m, Unlock global_waiter_mutex, Notify_all, Move_callbacks]
                @ map (\<lambda>cb. Invoke cb self2) (callbacks_m self @ cbs) \<and>
         u2 = fold (\<lambda>cb. run cb self2) (callbacks_m self @ cbs) u"
proof -
  from assms(1,2) have reg:
    "self1 = self\<lparr>callbacks_m := callbacks_m self @ cbs\<rparr>" "u1 = u"
    "evs1 = concat (map (\<lambda>cb. [Lock mutex_m, Push_back cb, Unlock mutex_m]) cbs)"
    by (simp_all add: AddCallbacks_pending)
  have quiet: "invocations held evs1 = []"
    unfolding reg(3) by (rule invocations_pushes_only)
  from assms(3) have fin:
    "self2 = self\<lparr>state_m := state, callbacks_m := []\<rparr>"
    "u2 = fold (\<lambda>cb. run cb self2) (callbacks_m self @ cbs) u"
    "evs2 = [Lock global_waiter_mutex, Lock mutex_m, Write_state state,
             Unlock mutex_m, Unlock global_waiter_mutex, Notify_all, Move_callbacks]
            @ map (\<lambda>cb. Invoke cb self2) (callbacks_m self @ cbs)"
    unfolding reg DoMarkFinishedOrFailed_eq by auto
  have "invocations held evs2 = map (\<lambda>cb. (cb, self2, held)) (callbacks_m self @ cbs)"
    unfolding fin(3) by (simp add: invocations_Invokes del: map_append)
  with quiet reg(2) fin show ?thesis by simp
qed

theorem callbacks_fire_once_in_order_witness:
  "state_m (FutureImpl_Make :: (nat, nat) FutureImpl) = PENDING \<and>
   AddCallbacks log_call [1, 2] (FutureImpl_Make :: (nat, nat) FutureImpl) [] =
     (two_waiting, [],
      [Lock mutex_m, Push_back 1, Unlock mutex_m, Lock mutex_m, Push_back 2, Unlock mutex_m]) \<and>
   DoMarkFinishedOrFailed log_call SUCCESS (two_waiting :: (nat, nat) FutureImpl) [] =
     (two_done, [(1, SUCCESS), (2, SUCCESS)],
      [Lock global_waiter_mutex, Lock mutex_m, Write_state SUCCESS,
       Unlock mutex_m, Unlock global_waiter_mutex, Notify_all, Move_callbacks,
       Invoke 1 two_done, Invoke 2 two_done]) \<and>
   invocations []
     (snd (snd (DoMarkFinishedOrFailed log_call SUCCESS (two_waiting :: (nat, nat) FutureImpl) [])))
     = [(1, two_done, []), (2, two_done, [])]"
proof -
  have pend: "state_m (FutureImpl_Make :: (nat, nat) FutureImpl) = PENDING"
    by (simp add: FutureImpl_Make_def)
  have reg: "AddCallbacks log_call [1, 2] (FutureImpl_Make :: (nat, nat) FutureImpl) [] =
     (two_waiting, [],
      [Lock mutex_m, Push_back 1, Unlock mutex_m, Lock mutex_m, Push_back 2, Unlock mutex_m])"
    by (simp add: two_waiting_eq AddCallback_def FutureImpl_Make_def IsFutureFinished_def)
  have fin: "DoMarkFinishedOrFailed log_call SUCCESS (two_waiting :: (nat, nat) FutureImpl) [] =
     (two_done, [(1, SUCCESS), (2, SUCCESS)],
      [Lock global_waiter_mutex, Lock mutex_m, Write_state SUCCESS,
       Unlock mutex_m, Unlock global_waiter_mutex, Notify_all, Move_callbacks,
       Invoke 1 two_done, Invoke 2 two_done])"
    by (simp add: two_done_eq two_waiting_eq DoMarkFinishedOrFailed_eq log_call_def)
  from callbacks_fire_once_in_order [OF pend reg fin, of "[]"] pend reg fin
  show ?thesis by (simp add: FutureImpl_Make_def two_done_eq)
qed

text \<open>
  C4: \<open>AddCallback\<close> on a finished core leaves the core as it is (nothing is queued)
  and calls the callback once, before returning, after the lock was released (at the
  call the thread holds what it held on entry, \<open>mutex_m\<close> not among the call's own),
  on the core itself, whose finished state and stored result the callback reads. On a
  pending core it calls nothing, leaves the environment alone and appends the
  callback at the end of the queue while \<open>mutex_m\<close> is held.
\<close>

theorem AddCallback_runs_or_queues:
  assumes "AddCallback run cb self u = (self', u', evs)"
  shows "(IsFutureFinished (state_m self) \<longrightarrow>
            self' = self \<and> u' = run cb self u \<and>
            invocations held evs = [(cb, self, held)] \<and> pushes held evs = []) \<and>
         (\<not> IsFutureFinished (state_m self) \<longrightarrow>
            self' = self\<lparr>callbacks_m := callbacks_m self @ [cb]\<rparr> \<and> u' = u \<and>
            invocations held evs = [] \<and> pushes held evs = [(cb, mutex_m # held)])"
  using assms by (auto simp: AddCallback_def)

theorem AddCallback_runs_or_queues_witness:
  "AddCallback log_call 3 (two_done :: (nat, nat) FutureImpl) [] =
     (two_done, [(3, SUCCESS)], [Lock mutex_m, Unlock mutex_m, Invoke 3 two_done]) \<and>
   IsFutureFinished (state_m (two_done :: (nat, nat) FutureImpl)) \<and>
   AddCallback log_call 3 (two_waiting :: (nat, nat) FutureImpl) [] =
     (\<lparr>state_m = PENDING, result_m = None, callbacks_m = [1, 2, 3]\<rparr>, [],
      [Lock mutex_m, Push_back 3, Unlock mutex_m]) \<and>
   \<not> IsFutureFinished (state_m (two_waiting :: (nat, nat) FutureImpl)) \<and>
   invocations [] [Lock mutex_m, Unlock mutex_m, Invoke 3 (two_done :: (nat, nat) FutureImpl)]
     = [(3, two_done, [])] \<and>
   pushes [] [Lock mutex_m, Push_back (3::nat), Unlock mutex_m :: (nat, nat) event]
     = [(3, [mutex_m])]"
proof -
  have finished: "AddCallback log_call 3 (two_done :: (nat, nat) FutureImpl) [] =
     (two_done, [(3, SUCCESS)], [Lock mutex_m, Unlock mutex_m, Invoke 3 two_done])"
    by (simp add: two_done_eq AddCallback_def IsFutureFinished_def log_call_def)
  have waiting: "AddCallback log_call 3 (two_waiting :: (nat, nat) FutureImpl) [] =
     (\<lparr>state_m = PENDING, result_m = None, callbacks_m = [1, 2, 3]\<rparr>, [],
      [Lock mutex_m, Push_back 3, Unlock mutex_m])"
    by (simp add: two_waiting_eq AddCallback_def IsFutureFinished_def)
  from AddCallback_runs_or_queues [OF finished, of "[]"]
       AddCallback_runs_or_queues [OF waiting, of "[]"] finished waiting
  show ?thesis by (simp add: two_done_eq two_waiting_eq IsFutureFinished_def)
qed

section \<open>Properties of promises, executors and lazy futures\<close>

lemma Fulfill_all_empty:
  "Fulfill_all vals \<lparr>callback_m = None\<rparr> u = (\<lparr>callback_m = None\<rparr>, u, [])"
  by (induction vals) (simp_all add: Fulfill_def)

lemma Fulfill_all_holding:
  "Fulfill_all (val # vals) \<lparr>callback_m = Some cb\<rparr> u = (\<lparr>callback_m = None\<rparr>, cb val u, [val])"
  by (simp add: Fulfill_def Fulfill_all_empty)

text \<open>
  C7: a promise built with a callable and destroyed without any \<open>Fulfill\<close> calls the
  callable, once, with the error status \<open>Invalid\<close> and the message "Abandoned promise";
  that argument is a failure (not ok). This is all the callable sees in such a lifetime.
\<close>

theorem abandoned_promise_fails:
  "Promise_dtor (Promise_ctor (Some cb)) u =
     (cb (Error (Status_Invalid ''Abandoned promise'')) u,
      [Error (Status_Invalid ''Abandoned promise'')]) \<and>
   Promise_lifetime (Some cb) [] u =
     (cb (Error (Status_Invalid ''Abandoned promise'')) u,
      [Error (Status_Invalid ''Abandoned promise'')]) \<and>
   \<not> Result_ok (Error (Status_Invalid ''Abandoned promise'') :: 'a Result) \<and>
   Result_status (Error (Status_Invalid ''Abandoned promise'') :: 'a Result) =
     Some \<lparr>code = Invalid, msg = ''Abandoned promise'', detail = None\<rparr>"
  by (simp add: Promise_dtor_def Promise_ctor_def Promise_lifetime_def Result_ok_def
                Status_ok_def Status_Invalid_def Status_ctor_def)

theorem abandoned_promise_fails_witness:
  "Promise_lifetime (Some note_result) [] [] = ([''consumer: error''], [Error (Status_Invalid ''Abandoned promise'')])"
  using abandoned_promise_fails [of note_result "[]"] by (elim conjE) simp

text \<open>
  C10: \<open>Fulfill\<close> on a promise holding a callable calls it once with the value and
  leaves the promise empty; the destructor of an empty promise calls nothing, and a
  further \<open>Fulfill\<close> throws without calling. Over a whole lifetime (construction, any
  sequence of \<open>Fulfill\<close> calls, destruction) the held callable is called at most once.
\<close>

theorem promise_callable_at_most_once:
  "Fulfill val (Promise_ctor (Some cb)) u = Inr (\<lparr>callback_m = None\<rparr>, cb val u, [val]) \<and>
   Promise_dtor \<lparr>callback_m = None\<rparr> u1 = (u1, []) \<and>
   Fulfill val' (\<lparr>callback_m = None\<rparr> :: ('a, 'u) Promise) u1 = Inl bad_function_call \<and>
   Promise_lifetime (Some cb) (val # vals) u = (cb val u, [val]) \<and>
   length (snd (Promise_lifetime callback vals' u)) \<le> 1"
proof -
  have "length (snd (Promise_lifetime callback vals' u)) \<le> 1"
  proof (cases callback)
    case None
    then show ?thesis
      by (simp add: Promise_lifetime_def Promise_ctor_def Fulfill_all_empty Promise_dtor_def)
  next
    case (Some cb')
    then show ?thesis
      by (cases vals')
         (simp_all add: Promise_lifetime_def Promise_ctor_def Fulfill_all_holding
                        Promise_dtor_def del: Fulfill_all.simps(2))
  qed
  moreover have "Promise_lifetime (Some cb) (val # vals) u = (cb val u, [val])"
    by (simp add: Promise_lifetime_def Promise_ctor_def Fulfill_all_holding Promise_dtor_def
             del: Fulfill_all.simps(2))
  ultimately show ?thesis
    by (simp add: Fulfill_def Promise_ctor_def Promise_dtor_def)
qed

theorem promise_callable_at_most_once_witness:
  "Promise_lifetime (Some note_result) [Value 2, Value 3] [] = ([''consumer: value II''], [Value 2])"
  using promise_callable_at_most_once [of "Value 2" note_result "[]" "[]" "Value 0" "[Value 3]" None "[]"]
  by (elim conjE) (simp add: eval_nat_numeral)





text \<open>
  C6: \<open>Then\<close> is a function of the lazy future alone (it has no environment to act on,
  so it runs neither the supplier nor the continuation); its result holds the supplier
  \<open>Compose s f\<close> and the executor pointer of the original. Calling the composed supplier
  calls \<open>s\<close> and then \<open>f\<close> on its result. Consuming the composed future when its executor
  is the inline executor runs, before \<open>ConsumeAsync\<close> returns, the supplier, then the
  continuation, then the consumer, once each, the consumer on the value the
  continuation returned; the executors are left as they were.
\<close>

theorem Then_composes_lazily:
  assumes "executors (executor_m lf) = InlineExecutor"
  shows "supplier_m (Then f lf) = Compose (supplier_m lf) f \<and>
         executor_m (Then f lf) = executor_m lf \<and>
         Compose (supplier_m lf) f u =
           (case supplier_m lf u of (r, u1) \<Rightarrow> f r u1) \<and>
         ConsumeAsync consumer (Then f lf) executors u =
           (executors,
            case supplier_m lf u of (r, u1) \<Rightarrow> (case f r u1 of (v, u2) \<Rightarrow> consumer v u2))"
proof -
  have "executors(executor_m lf := InlineExecutor) = executors"
    using assms by auto
  then show ?thesis
    using assms
    by (simp add: Then_def Compose_def ConsumeAsync_def FutureRunningTask_def Let_def
             split: prod.splits)
qed

theorem Then_composes_lazily_witness:
  "inline_only (executor_m \<lparr>supplier_m = supply_five, executor_m = 0\<rparr>) = InlineExecutor \<and>
   ConsumeAsync note_result (Then add_one \<lparr>supplier_m = supply_five, executor_m = 0\<rparr>)
       inline_only [] =
     (inline_only, [''supplier'', ''continuation'', ''consumer: value IIIIII''])"
proof -
  have inl: "inline_only (executor_m \<lparr>supplier_m = supply_five, executor_m = 0\<rparr>) = InlineExecutor"
    by (simp add: inline_only_def)
  from Then_composes_lazily
         [of inline_only "\<lparr>supplier_m = supply_five, executor_m = 0\<rparr>" add_one "[]" note_result,
          OF inl] inl
  show ?thesis by (simp add: supply_five_def eval_nat_numeral)
qed

section \<open>Properties of the combinators\<close>

lemma Future_MarkFinished_eq:
  "Future_MarkFinished run s fut u =
     (fut\<lparr>result_m := Some s, state_m := (if Status_ok s then SUCCESS else FAILURE), callbacks_m := []\<rparr>,
      fold (\<lambda>cb. run cb (fut\<lparr>result_m := Some s, state_m := (if Status_ok s then SUCCESS else FAILURE), callbacks_m := []\<rparr>))
           (callbacks_m fut) u,
      [Lock global_waiter_mutex, Lock mutex_m, Write_state (if Status_ok s then SUCCESS else FAILURE),
       Unlock mutex_m, Unlock global_waiter_mutex, Notify_all, Move_callbacks]
      @ map (\<lambda>cb. Invoke cb (fut\<lparr>result_m := Some s, state_m := (if Status_ok s then SUCCESS else FAILURE), callbacks_m := []\<rparr>))
            (callbacks_m fut))"
  by (simp add: Future_MarkFinished_def DoMarkFinished_def DoMarkFailed_def
                DoMarkFinishedOrFailed_eq Let_def)

lemma lambda_body_counter:
  "n_remaining (AllComplete_lambda_body run_out st w) =
     (if Status_ok st then (n_remaining w + 2 ^ 64 - 1) mod 2 ^ 64 else n_remaining w)"
  by (simp add: AllComplete_lambda_body_def Future_MarkFinished_eq Let_def)

lemma lambda_body_out:
  "out (AllComplete_lambda_body run_out st w) =
     (if \<not> Status_ok st then
        (if \<not> is_finished (out w)
         then (out w)\<lparr>result_m := Some st, state_m := FAILURE, callbacks_m := []\<rparr>
         else out w)
      else if n_remaining w \<noteq> 1 then out w
      else (out w)\<lparr>result_m := Some Status_OK, state_m := SUCCESS, callbacks_m := []\<rparr>)"
  by (simp add: AllComplete_lambda_body_def Future_MarkFinished_eq Let_def Status_OK_def Status_ok_def)

lemma fetch_sub_no_wrap:
  fixes n :: nat
  assumes "0 < n" and "n < 2 ^ 64"
  shows "(n + 2 ^ 64 - 1) mod 2 ^ 64 = n - 1"
proof -
  obtain m where m: "n = Suc m" using assms(1) by (cases n) auto
  have "n + 2 ^ 64 - 1 = m + 2 ^ 64" unfolding m by simp
  moreover have "m < 2 ^ 64" using assms(2) unfolding m by simp
  ultimately have "(n + 2 ^ 64 - 1) mod 2 ^ 64 = m" by (simp only: mod_add_self2 mod_less)
  then show ?thesis unfolding m by simp
qed

lemma find_append_one:
  "find P (xs @ [x]) = (case find P xs of Some y \<Rightarrow> Some y | None \<Rightarrow> if P x then Some x else None)"
  by (induction xs) simp_all

lemma find_None_all: "find P xs = None \<Longrightarrow> filter (\<lambda>x. \<not> P x) xs = xs"
  by (induction xs) (simp_all split: if_splits)

lemma find_Some_filter_less:
  "find (\<lambda>s. \<not> Q s) xs = Some y \<Longrightarrow> length (filter Q xs) < length xs"
  by (induction xs) (auto simp: le_imp_less_Suc split: if_splits)

lemma tracks_step:
  assumes "tracks N obs w" and "length obs < N" and "N < 2 ^ 64"
  shows "tracks N (obs @ [st]) (AllComplete_lambda_body run_out st w)"
proof -
  let ?k = "length (filter Status_ok obs)"
  have k: "?k \<le> length obs" by simp
  from assms(1) have n: "n_remaining w = N - ?k" and r: "resolved_as N obs (out w)"
    by (simp_all add: tracks_def)
  have pos: "0 < n_remaining w" using n k assms(2) by linarith
  have small: "n_remaining w < 2 ^ 64" using n assms(3) by linarith
  have dec: "(n_remaining w + 2 ^ 64 - 1) mod 2 ^ 64 = n_remaining w - 1"
    using pos small by (rule fetch_sub_no_wrap)
  show ?thesis
  proof (cases "Status_ok st")
    case False
    then show ?thesis
      using n r assms(2)
      by (auto simp: tracks_def lambda_body_counter lambda_body_out resolved_as_def
            find_append_one is_finished_def IsFutureFinished_def split: option.splits if_splits)
  next
    case True
    show ?thesis
    proof (cases "find (\<lambda>s. \<not> Status_ok s) obs")
      case (Some f)
      then have "?k < length obs" by (rule find_Some_filter_less)
      then have "n_remaining w \<noteq> 1" using n k assms(2) by linarith
      with Some True show ?thesis
        using n r dec
        by (auto simp: tracks_def lambda_body_counter lambda_body_out resolved_as_def find_append_one)
    next
      case None
      then have "filter (\<lambda>x. \<not> \<not> Status_ok x) obs = obs" by (rule find_None_all)
      then have "?k = length obs" by simp
      with None True show ?thesis
        using n r dec assms(2)
        by (auto simp: tracks_def lambda_body_counter lambda_body_out resolved_as_def find_append_one)
    qed
  qed
qed

lemma tracks_user: "tracks N obs (w\<lparr>user := x\<rparr>) = tracks N obs w"
  by (simp add: tracks_def)

lemma fold_run_lambdas:
  assumes "result_m self = Some st" and "tracks N obs w"
      and "length obs + count_list cbs AllComplete_lambda \<le> N" and "N < 2 ^ 64"
  shows "tracks N (obs @ replicate (count_list cbs AllComplete_lambda) st)
           (fold (\<lambda>cb. AllComplete_run run_other run_out cb self) cbs w)"
  using assms(2,3)
proof (induction cbs arbitrary: obs w)
  case Nil
  then show ?case by simp
next
  case (Cons cb cbs)
  show ?case
  proof (cases cb)
    case (Other c)
    have "tracks N obs (AllComplete_run run_other run_out cb self w)"
      using Cons.prems(1) by (simp add: Other AllComplete_run_def tracks_user)
    moreover have "length obs + count_list cbs AllComplete_lambda \<le> N"
      using Cons.prems(2) by (simp add: Other)
    ultimately show ?thesis
      using Cons.IH [of obs "AllComplete_run run_other run_out cb self w"] by (simp add: Other)
  next
    case AllComplete_lambda
    have len: "length obs < N" using Cons.prems(2) by (simp add: AllComplete_lambda)
    have "tracks N (obs @ [st]) (AllComplete_lambda_body run_out st w)"
      using Cons.prems(1) len assms(4) by (rule tracks_step)
    then have "tracks N (obs @ [st]) (AllComplete_run run_other run_out cb self w)"
      by (simp add: AllComplete_lambda AllComplete_run_def assms(1))
    moreover have "length (obs @ [st]) + count_list cbs AllComplete_lambda \<le> N"
      using Cons.prems(2) by (simp add: AllComplete_lambda)
    ultimately have "tracks N ((obs @ [st]) @ replicate (count_list cbs AllComplete_lambda) st)
        (fold (\<lambda>cb. AllComplete_run run_other run_out cb self) cbs
           (AllComplete_run run_other run_out cb self w))"
      by (rule Cons.IH)
    then show ?thesis by (simp add: AllComplete_lambda)
  qed
qed

lemma complete_step:
  assumes "waiting futures heap i" and "tracks N obs w"
      and "length obs + count_list futures i \<le> N" and "N < 2 ^ 64"
      and "complete (AllComplete_run run_other run_out) (i, s) (heap, w) = (heap', w')"
  shows "tracks N (obs @ replicate (count_list futures i) s) w' \<and> length heap' = length heap \<and>
         (\<forall>j. j \<noteq> i \<longrightarrow> heap' ! j = heap ! j)"
proof -
  let ?self = "(heap ! i)\<lparr>result_m := Some s,
      state_m := (if Status_ok s then SUCCESS else FAILURE), callbacks_m := []\<rparr>"
  from assms(5) have h: "heap' = heap[i := ?self]"
    and w: "w' = fold (\<lambda>cb. AllComplete_run run_other run_out cb ?self) (callbacks_m (heap ! i)) w"
    by (simp_all add: complete_def Future_MarkFinished_eq)
  from assms(1) have c: "count_list (callbacks_m (heap ! i)) AllComplete_lambda = count_list futures i"
    by (simp add: waiting_def)
  have r: "result_m ?self = Some s" by simp
  have "tracks N (obs @ replicate (count_list (callbacks_m (heap ! i)) AllComplete_lambda) s) w'"
    unfolding w using r assms(2) _ assms(4) by (rule fold_run_lambdas) (use assms(3) c in simp)
  then show ?thesis by (simp add: h c)
qed

lemma met_Nil: "met futures [] = []"
  by (simp add: met_def)

lemma met_Cons: "met futures ((i, s) # sched) = replicate (count_list futures i) s @ met futures sched"
  by (simp add: met_def)

lemma length_met: "length (met futures sched) = sum_list (map (\<lambda>c. count_list futures (fst c)) sched)"
  by (induction sched) (auto simp: met_Nil met_Cons)

lemma run_schedule_tracks:
  assumes "distinct (map fst sched)" and "\<forall>c \<in> set sched. waiting futures heap (fst c)"
      and "tracks N obs w" and "length obs + length (met futures sched) \<le> N" and "N < 2 ^ 64"
  shows "tracks N (obs @ met futures sched)
           (snd (run_schedule (AllComplete_run run_other run_out) sched (heap, w)))"
  using assms
proof (induction sched arbitrary: heap w obs)
  case Nil
  then show ?case by (simp add: run_schedule_def met_Nil)
next
  case (Cons c sched)
  obtain i s where c: "c = (i, s)" by (cases c)
  obtain heap' w' where step:
    "complete (AllComplete_run run_other run_out) (i, s) (heap, w) = (heap', w')"
    by (cases "complete (AllComplete_run run_other run_out) (i, s) (heap, w)")
  from Cons.prems have wi: "waiting futures heap i"
    and len: "length obs + count_list futures i \<le> N" by (simp_all add: c met_Cons)
  note st = complete_step [OF wi Cons.prems(3) len Cons.prems(5) step]
  have rest: "\<forall>d \<in> set sched. waiting futures heap' (fst d)"
  proof
    fix d assume d: "d \<in> set sched"
    with Cons.prems(1) have "fst d \<noteq> i" by (auto simp: c)
    moreover from d Cons.prems(2) have "waiting futures heap (fst d)" by simp
    ultimately show "waiting futures heap' (fst d)" using st by (simp add: waiting_def)
  qed
  have "tracks N ((obs @ replicate (count_list futures i) s) @ met futures sched)
          (snd (run_schedule (AllComplete_run run_other run_out) sched (heap', w')))"
    using Cons.prems by (intro Cons.IH rest) (simp_all add: st c met_Cons)
  then show ?case by (simp add: run_schedule_def c step met_Cons)
qed

lemma already_Nil: "already heap [] = []"
  by (simp add: already_def)

lemma already_Cons:
  "already heap (i # fs) =
     (if is_finished (heap ! i) then (case result_m (heap ! i) of Some s \<Rightarrow> [s] | None \<Rightarrow> []) else [])
     @ already heap fs"
  by (simp add: already_def)

lemma already_cong:
  "\<forall>i \<in> set fs. state_m (heap' ! i) = state_m (heap ! i) \<and> result_m (heap' ! i) = result_m (heap ! i)
   \<Longrightarrow> already heap' fs = already heap fs"
  by (induction fs) (simp_all add: already_Cons already_Nil is_finished_def)

lemma AllComplete_loop_tracks:
  assumes "\<forall>i \<in> set fs. i < length heap \<and> (is_finished (heap ! i) \<longrightarrow> result_m (heap ! i) \<noteq> None)"
      and "tracks N obs w" and "length obs + length fs \<le> N" and "N < 2 ^ 64"
  shows "tracks N (obs @ already heap fs)
           (snd (AllComplete_loop (AllComplete_run run_other run_out) fs heap w)) \<and>
         length (fst (AllComplete_loop (AllComplete_run run_other run_out) fs heap w)) = length heap \<and>
         (\<forall>j < length heap.
            state_m (fst (AllComplete_loop (AllComplete_run run_other run_out) fs heap w) ! j)
              = state_m (heap ! j) \<and>
            result_m (fst (AllComplete_loop (AllComplete_run run_other run_out) fs heap w) ! j)
              = result_m (heap ! j) \<and>
            count_list (callbacks_m
                (fst (AllComplete_loop (AllComplete_run run_other run_out) fs heap w) ! j))
                AllComplete_lambda
              = count_list (callbacks_m (heap ! j)) AllComplete_lambda
                + (if state_m (heap ! j) = PENDING then count_list fs j else 0))"
  using assms(1,2,3)
proof (induction fs arbitrary: heap w obs)
  case Nil
  then show ?case by (simp add: already_Nil)
next
  case (Cons f fs)
  let ?run = "AllComplete_run run_other run_out"
  from Cons.prems(1) have f: "f < length heap"
    and res: "is_finished (heap ! f) \<longrightarrow> result_m (heap ! f) \<noteq> None" by simp_all
  show ?case
  proof (cases "is_finished (heap ! f)")
    case True
    with res obtain st where st: "result_m (heap ! f) = Some st" by auto
    have loop: "AllComplete_loop ?run (f # fs) heap w =
                AllComplete_loop ?run fs heap (AllComplete_lambda_body run_out st w)"
      using True by (simp add: Future_AddCallback_def AddCallback_def is_finished_def
                               AllComplete_run_def st)
    have tr: "tracks N (obs @ [st]) (AllComplete_lambda_body run_out st w)"
      using Cons.prems(2) _ assms(4) by (rule tracks_step) (use Cons.prems(3) in simp)
    have pre: "\<forall>i \<in> set fs. i < length heap \<and>
             (is_finished (heap ! i) \<longrightarrow> result_m (heap ! i) \<noteq> None)"
      using Cons.prems(1) by simp
    have len: "length (obs @ [st]) + length fs \<le> N" using Cons.prems(3) by simp
    note IH = Cons.IH [OF pre tr len]
    have al: "already heap (f # fs) = st # already heap fs"
      using True by (simp add: already_Cons st)
    have np: "state_m (heap ! f) \<noteq> PENDING"
      using True by (simp add: is_finished_def IsFutureFinished_def)
    from IH np show ?thesis
      unfolding loop al by auto
  next
    case False
    let ?heap1 = "heap[f := (heap ! f)\<lparr>callbacks_m := callbacks_m (heap ! f) @ [AllComplete_lambda]\<rparr>]"
    have loop: "AllComplete_loop ?run (f # fs) heap w = AllComplete_loop ?run fs ?heap1 w"
      using False by (simp add: Future_AddCallback_def AddCallback_def is_finished_def)
    have same: "\<forall>j. state_m (?heap1 ! j) = state_m (heap ! j) \<and>
                     result_m (?heap1 ! j) = result_m (heap ! j)"
      using f by (simp add: nth_list_update)
    have cnt: "\<forall>j < length heap. count_list (callbacks_m (?heap1 ! j)) AllComplete_lambda =
                 count_list (callbacks_m (heap ! j)) AllComplete_lambda + (if j = f then 1 else 0)"
      by (simp add: nth_list_update)
    have pre: "\<forall>i \<in> set fs. i < length ?heap1 \<and>
             (is_finished (?heap1 ! i) \<longrightarrow> result_m (?heap1 ! i) \<noteq> None)"
      using Cons.prems(1) same by (simp add: is_finished_def)
    have len: "length obs + length fs \<le> N" using Cons.prems(3) by simp
    note IH = Cons.IH [OF pre Cons.prems(2) len]
    have al: "already heap (f # fs) = already ?heap1 fs"
      using False already_cong [of fs ?heap1 heap] same by (simp add: already_Cons)
    have pend: "state_m (heap ! f) = PENDING"
      using False by (simp add: is_finished_def IsFutureFinished_def)
    from IH have tr: "tracks N (obs @ already ?heap1 fs) (snd (AllComplete_loop ?run fs ?heap1 w))"
      and ln: "length (fst (AllComplete_loop ?run fs ?heap1 w)) = length heap"
      and each: "\<forall>j < length heap.
            state_m (fst (AllComplete_loop ?run fs ?heap1 w) ! j) = state_m (?heap1 ! j) \<and>
            result_m (fst (AllComplete_loop ?run fs ?heap1 w) ! j) = result_m (?heap1 ! j) \<and>
            count_list (callbacks_m (fst (AllComplete_loop ?run fs ?heap1 w) ! j)) AllComplete_lambda
              = count_list (callbacks_m (?heap1 ! j)) AllComplete_lambda
                + (if state_m (?heap1 ! j) = PENDING then count_list fs j else 0)"
      by simp_all
    have "\<forall>j < length heap.
            state_m (fst (AllComplete_loop ?run fs ?heap1 w) ! j) = state_m (heap ! j) \<and>
            result_m (fst (AllComplete_loop ?run fs ?heap1 w) ! j) = result_m (heap ! j) \<and>
            count_list (callbacks_m (fst (AllComplete_loop ?run fs ?heap1 w) ! j)) AllComplete_lambda
              = count_list (callbacks_m (heap ! j)) AllComplete_lambda
                + (if state_m (heap ! j) = PENDING then count_list (f # fs) j else 0)"
    proof (intro allI impI)
      fix j assume j: "j < length heap"
      from each j same cnt pend show
           "state_m (fst (AllComplete_loop ?run fs ?heap1 w) ! j) = state_m (heap ! j) \<and>
            result_m (fst (AllComplete_loop ?run fs ?heap1 w) ! j) = result_m (heap ! j) \<and>
            count_list (callbacks_m (fst (AllComplete_loop ?run fs ?heap1 w) ! j)) AllComplete_lambda
              = count_list (callbacks_m (heap ! j)) AllComplete_lambda
                + (if state_m (heap ! j) = PENDING then count_list (f # fs) j else 0)"
        by (cases "j = f") simp_all
    qed
    with tr ln show ?thesis
      unfolding loop al by simp
  qed
qed

lemma sum_count_list_distinct:
  "distinct is \<Longrightarrow> sum_list (map (count_list xs) is) = length (filter (\<lambda>x. x \<in> set is) xs)"
proof (induction "is")
  case Nil
  show ?case by simp
next
  case (Cons i "is")
  have "count_list xs i + length (filter (\<lambda>x. x \<in> set is) xs)
          = length (filter (\<lambda>x. x = i \<or> x \<in> set is) xs)"
    using Cons.prems by (induction xs) auto
  with Cons show ?case by simp
qed

lemma length_filter_mono:
  "\<forall>x \<in> set xs. P x \<longrightarrow> Q x \<Longrightarrow> length (filter P xs) \<le> length (filter Q xs)"
  by (induction xs) auto

text \<open>
  C2: \<open>AllComplete\<close> is called on a non-empty vector of handles (fewer than \<open>2^64\<close>;
  valid positions of the heap; the lambda of this call is not yet queued on them;
  inputs that are already finished carry their result), and afterwards the pending
  inputs are completed in any order, each at most once. Then the returned future
  \<open>out\<close> is as the statuses the lambda met demand: if one of them is a failure, \<open>out\<close>
  has failed with the first failure met, whatever came later; if none is and all \<open>N\<close>
  have come, \<open>out\<close> has succeeded; otherwise \<open>out\<close> is still pending.
\<close>

theorem AllComplete_first_failure_or_all_succeed:
  assumes "futures \<noteq> []" and "length futures < 2 ^ 64"
      and "\<forall>i \<in> set futures. i < length heap \<and>
             AllComplete_lambda \<notin> set (callbacks_m (heap ! i)) \<and>
             (is_finished (heap ! i) \<longrightarrow> result_m (heap ! i) \<noteq> None)"
      and "distinct (map fst sched)"
      and "\<forall>c \<in> set sched. fst c \<in> set futures \<and> state_m (heap ! fst c) = PENDING"
  shows "resolved_as (length futures) (observed heap futures sched)
           (out (snd (run_schedule (AllComplete_run run_other run_out) sched
                        (AllComplete run_other run_out futures heap u))))"
proof -
  let ?N = "length futures"
  let ?run = "AllComplete_run run_other run_out"
  let ?w0 = "\<lparr>n_remaining = ?N mod 2 ^ 64, out = Future_Make, user = u\<rparr>"
  let ?reg = "AllComplete_loop ?run futures heap ?w0"
  have ac: "AllComplete run_other run_out futures heap u = (fst ?reg, snd ?reg)"
    using assms(1) by (simp add: AllComplete_def)
  have t0: "tracks ?N [] ?w0"
    using assms(1,2) by (simp add: tracks_def resolved_as_def Future_Make_def FutureImpl_Make_def)
  have fin_len: "length (already heap futures) \<le> length (filter (\<lambda>i. is_finished (heap ! i)) futures)"
    by (induction futures) (simp_all add: already_Cons already_Nil split: option.splits)
  have "length (met futures sched) = sum_list (map (count_list futures) (map fst sched))"
    by (simp add: length_met comp_def)
  also have "\<dots> = length (filter (\<lambda>x. x \<in> set (map fst sched)) futures)"
    using assms(4) by (rule sum_count_list_distinct)
  also have "\<dots> \<le> length (filter (\<lambda>i. \<not> is_finished (heap ! i)) futures)"
    using assms(5) by (intro length_filter_mono) (auto simp: is_finished_def IsFutureFinished_def)
  finally have sched_len:
    "length (met futures sched) \<le> length (filter (\<lambda>i. \<not> is_finished (heap ! i)) futures)" .
  have "length (filter (\<lambda>i. is_finished (heap ! i)) futures)
        + length (filter (\<lambda>i. \<not> is_finished (heap ! i)) futures) = ?N"
    by (rule sum_length_filter_compl)
  with fin_len sched_len have total: "length (already heap futures) + length (met futures sched) \<le> ?N"
    by linarith
  have pre: "\<forall>i \<in> set futures. i < length heap \<and>
               (is_finished (heap ! i) \<longrightarrow> result_m (heap ! i) \<noteq> None)"
    using assms(3) by simp
  have l0: "length ([] :: Status list) + length futures \<le> ?N" by simp
  note reg = AllComplete_loop_tracks [OF pre t0 l0 assms(2), of run_other run_out]
  have w: "\<forall>c \<in> set sched. waiting futures (fst ?reg) (fst c)"
  proof
    fix c assume c: "c \<in> set sched"
    with assms(5) have m: "fst c \<in> set futures" and p: "state_m (heap ! fst c) = PENDING" by simp_all
    from m assms(3) have l: "fst c < length heap"
      and "AllComplete_lambda \<notin> set (callbacks_m (heap ! fst c))" by simp_all
    then have z: "count_list (callbacks_m (heap ! fst c)) AllComplete_lambda = 0"
      by (simp add: count_list_0_iff)
    from reg l p z show "waiting futures (fst ?reg) (fst c)"
      by (simp add: waiting_def)
  qed
  have tr: "tracks ?N ([] @ already heap futures) (snd ?reg)" using reg by simp
  have "tracks ?N (([] @ already heap futures) @ met futures sched)
          (snd (run_schedule ?run sched (fst ?reg, snd ?reg)))"
    using assms(4) w tr _ assms(2) by (rule run_schedule_tracks) (use total in simp)
  then show ?thesis
    unfolding ac by (simp add: tracks_def observed_def)
qed

theorem AllComplete_first_failure_or_all_succeed_witness:
  "state_m (out (snd (run_schedule (AllComplete_run note_other note_out) mixed_schedule
       (AllComplete note_other note_out [0, 1, 2] three_pending [])))) = FAILURE \<and>
   result_m (out (snd (run_schedule (AllComplete_run note_other note_out) mixed_schedule
       (AllComplete note_other note_out [0, 1, 2] three_pending []))))
     = Some (Status_Invalid ''second'') \<and>
   state_m (out (snd (run_schedule (AllComplete_run note_other note_out) ok_schedule
       (AllComplete note_other note_out [0, 1, 2] three_pending [])))) = SUCCESS \<and>
   state_m (out (snd (run_schedule (AllComplete_run note_other note_out) (take 2 ok_schedule)
       (AllComplete note_other note_out [0, 1, 2] three_pending [])))) = PENDING"
proof -
  have nonempty: "[0, 1, 2 :: nat] \<noteq> []" by simp
  have small: "length [0, 1, 2 :: nat] < 2 ^ 64" by simp
  have inputs: "\<forall>i \<in> set [0, 1, 2 :: nat]. i < length three_pending \<and>
             AllComplete_lambda \<notin> set (callbacks_m (three_pending ! i)) \<and>
             (is_finished (three_pending ! i) \<longrightarrow> result_m (three_pending ! i) \<noteq> None)"
    by (simp add: three_pending_def Future_Make_def FutureImpl_Make_def is_finished_def
                  IsFutureFinished_def)
  have pending: "\<forall>i \<in> set [0, 1, 2 :: nat]. state_m (three_pending ! i) = PENDING"
    by (simp add: three_pending_def Future_Make_def FutureImpl_Make_def)
  have none: "already three_pending [0, 1, 2] = []"
    by (simp add: already_def three_pending_def Future_Make_def FutureImpl_Make_def
                  is_finished_def IsFutureFinished_def)
  have d1: "distinct (map fst mixed_schedule)" by (simp add: mixed_schedule_def)
  have p1: "\<forall>c \<in> set mixed_schedule. fst c \<in> set [0, 1, 2 :: nat] \<and>
              state_m (three_pending ! fst c) = PENDING"
    using pending by (simp add: mixed_schedule_def)
  have d2: "distinct (map fst ok_schedule)" by (simp add: ok_schedule_def)
  have p2: "\<forall>c \<in> set ok_schedule. fst c \<in> set [0, 1, 2 :: nat] \<and>
              state_m (three_pending ! fst c) = PENDING"
    using pending by (simp add: ok_schedule_def)
  have d3: "distinct (map fst (take 2 ok_schedule))" by (simp add: ok_schedule_def)
  have p3: "\<forall>c \<in> set (take 2 ok_schedule). fst c \<in> set [0, 1, 2 :: nat] \<and>
              state_m (three_pending ! fst c) = PENDING"
    using pending by (simp add: ok_schedule_def)
  have o1: "observed three_pending [0, 1, 2] mixed_schedule =
              [Status_OK, Status_Invalid ''second'', Status_Invalid ''first'']"
    unfolding observed_def none by (simp add: met_def mixed_schedule_def)
  have o2: "observed three_pending [0, 1, 2] ok_schedule = [Status_OK, Status_OK, Status_OK]"
    unfolding observed_def none by (simp add: met_def ok_schedule_def)
  have o3: "observed three_pending [0, 1, 2] (take 2 ok_schedule) = [Status_OK, Status_OK]"
    unfolding observed_def none by (simp add: met_def ok_schedule_def)
  have bad: "\<not> Status_ok (Status_Invalid ''second'')" "Status_ok Status_OK"
    by (simp_all add: Status_ok_def Status_Invalid_def Status_ctor_def Status_OK_def)
  from AllComplete_first_failure_or_all_succeed
         [OF nonempty small inputs d1 p1, of note_other note_out "[]"]
       AllComplete_first_failure_or_all_succeed
         [OF nonempty small inputs d2 p2, of note_other note_out "[]"]
       AllComplete_first_failure_or_all_succeed
         [OF nonempty small inputs d3 p3, of note_other note_out "[]"]
  show ?thesis
    unfolding o1 o2 o3 by (simp add: resolved_as_def bad)
qed

text \<open>
  C8: on an empty vector \<open>AllComplete\<close> returns at once a future that is finished with
  success and carries the OK status; it makes no lambda and touches neither a core of
  the heap nor the environment.
\<close>

theorem AllComplete_empty_is_finished:
  "AllComplete run_other run_out [] heap u =
     (heap, \<lparr>n_remaining = 0,
             out = \<lparr>state_m = SUCCESS, result_m = Some Status_OK, callbacks_m = []\<rparr>,
             user = u\<rparr>) \<and>
   is_finished (out (snd (AllComplete run_other run_out [] heap u))) \<and>
   Status_ok Status_OK"
  by (simp add: AllComplete_def Future_MakeFinished_def FutureImpl_MakeFinished_def
                FutureImpl_Make_def Status_ok_def Status_OK_def is_finished_def
                IsFutureFinished_def)

theorem AllComplete_empty_is_finished_witness:
  "AllComplete note_other note_out [] three_pending [] =
     (three_pending, \<lparr>n_remaining = 0,
             out = \<lparr>state_m = SUCCESS, result_m = Some Status_OK, callbacks_m = []\<rparr>,
             user = []\<rparr>)"
  using AllComplete_empty_is_finished [of note_other note_out three_pending "[]"]
  by (elim conjE)

section \<open>Properties of \<open>AllFinished\<close>\<close>

lemma those_eq_None: "(those xs = None) = (None \<in> set xs)"
  by (induction xs) (auto split: option.splits)

lemma those_map_Some: "those (map (\<lambda>x. Some (f x)) xs) = Some (map f xs)"
  by (induction xs) simp_all

lemma ToResult_ok [simp]: "Result_ok (ToResult s) = Status_ok s"
  by (simp add: ToResult_def Result_ok_def Status_OK_def Status_ok_def)

lemma ToResult_status [simp]: "Result_status (ToResult s) = s"
  by (simp add: ToResult_def Status_OK_def Status_ok_def)

lemma AllFinished_lambda_first:
  assumes "k < length ss" and "\<not> Status_ok (ss ! k)" and "\<forall>j < k. Status_ok (ss ! j)"
  shows "AllFinished_lambda (map ToResult ss) = ss ! k"
  using assms
proof (induction ss arbitrary: k)
  case Nil
  then show ?case by simp
next
  case (Cons s ss)
  show ?case
  proof (cases k)
    case 0
    with Cons.prems show ?thesis by simp
  next
    case (Suc k')
    from Cons.prems(3) have "Status_ok ((s # ss) ! 0)" unfolding Suc by blast
    then have s: "Status_ok s" by simp
    have "\<forall>j < k'. Status_ok (ss ! j)"
    proof (intro allI impI)
      fix j assume "j < k'"
      then have "Suc j < k" by (simp add: Suc)
      with Cons.prems(3) have "Status_ok ((s # ss) ! Suc j)" by blast
      then show "Status_ok (ss ! j)" by simp
    qed
    with Cons.prems Cons.IH [of k'] have "AllFinished_lambda (map ToResult ss) = ss ! k'"
      by (simp add: Suc)
    with s show ?thesis by (simp add: Suc)
  qed
qed

lemma AllFinished_lambda_all_ok:
  "\<forall>s \<in> set ss. Status_ok s \<Longrightarrow> AllFinished_lambda (map ToResult ss) = Status_OK"
  by (induction ss) simp_all

lemma All_finished:
  assumes "\<forall>f \<in> set futs. is_finished f \<and> result_m f \<noteq> None"
  shows "All futs = Some (map (\<lambda>f. ToResult (the (result_m f))) futs)"
proof -
  have "map Future_result futs = map (\<lambda>f. Some (ToResult (the (result_m f)))) futs"
    using assms by (auto simp: Future_result_def)
  then show ?thesis unfolding All_def by (simp only: those_map_Some)
qed

text \<open>
  C5: with \<open>All\<close> and \<open>Then\<close> as the spec describes them, the future of \<open>AllFinished\<close>
  is pending exactly as long as some input is pending. Once every input has
  finished: if the input at position \<open>k\<close> failed and all inputs before it succeeded,
  the result is the failure of input \<open>k\<close>, in whatever order the inputs finished and
  whatever the inputs after \<open>k\<close> hold; if every input succeeded, the result is OK.
  (Inputs are cores as the handle produces them: a finished one carries its result.)
\<close>

theorem AllFinished_earliest_failure:
  assumes "\<forall>f \<in> set futs. is_finished f \<longrightarrow> result_m f \<noteq> None"
  shows "((AllFinished futs = None) = (\<exists>f \<in> set futs. \<not> is_finished f)) \<and>
         ((\<forall>f \<in> set futs. is_finished f) \<and> k < length futs \<and>
            result_m (futs ! k) = Some s \<and> \<not> Status_ok s \<and>
            (\<forall>j < k. \<exists>t. result_m (futs ! j) = Some t \<and> Status_ok t)
          \<longrightarrow> AllFinished futs = Some s) \<and>
         ((\<forall>f \<in> set futs. is_finished f \<and> (\<exists>t. result_m f = Some t \<and> Status_ok t))
          \<longrightarrow> AllFinished futs = Some Status_OK)"
proof (intro conjI impI)
  have "(None \<in> set (map Future_result futs)) = (\<exists>f \<in> set futs. \<not> is_finished f)"
    using assms by (auto simp: Future_result_def image_iff)
  then show "(AllFinished futs = None) = (\<exists>f \<in> set futs. \<not> is_finished f)"
    by (simp add: AllFinished_def Future_Then_def All_def those_eq_None del: set_map)
next
  assume a: "(\<forall>f \<in> set futs. is_finished f) \<and> k < length futs \<and>
            result_m (futs ! k) = Some s \<and> \<not> Status_ok s \<and>
            (\<forall>j < k. \<exists>t. result_m (futs ! j) = Some t \<and> Status_ok t)"
  let ?ss = "map (\<lambda>f. the (result_m f)) futs"
  from a assms have all: "\<forall>f \<in> set futs. is_finished f \<and> result_m f \<noteq> None" by blast
  have k: "k < length ?ss" using a by simp
  have sk: "?ss ! k = s" using a by simp
  have before: "\<forall>j < k. Status_ok (?ss ! j)"
  proof (intro allI impI)
    fix j assume j: "j < k"
    with a obtain t where "result_m (futs ! j) = Some t" "Status_ok t" by blast
    moreover from j a have "j < length futs" by simp
    ultimately show "Status_ok (?ss ! j)" by simp
  qed
  have "AllFinished_lambda (map ToResult ?ss) = ?ss ! k"
    using k _ before by (rule AllFinished_lambda_first) (use a sk in simp)
  then show "AllFinished futs = Some s"
    using sk by (simp add: AllFinished_def Future_Then_def All_finished [OF all] comp_def)
next
  assume a: "\<forall>f \<in> set futs. is_finished f \<and> (\<exists>t. result_m f = Some t \<and> Status_ok t)"
  let ?ss = "map (\<lambda>f. the (result_m f)) futs"
  from a have all: "\<forall>f \<in> set futs. is_finished f \<and> result_m f \<noteq> None" by auto
  from a have "\<forall>s \<in> set ?ss. Status_ok s" by auto
  then have "AllFinished_lambda (map ToResult ?ss) = Status_OK"
    by (rule AllFinished_lambda_all_ok)
  then show "AllFinished futs = Some Status_OK"
    by (simp add: AllFinished_def Future_Then_def All_finished [OF all] comp_def)
qed

theorem AllFinished_earliest_failure_witness:
  "AllFinished three_finished = Some (Status_Invalid ''b'') \<and>
   AllFinished (three_finished @ [Future_Make]) = None \<and>
   AllFinished [Future_MakeFinished Status_OK :: nat Future] = Some Status_OK"
proof -
  have fin: "\<forall>f \<in> set three_finished. is_finished f"
    by (simp add: three_finished_def Future_MakeFinished_def FutureImpl_MakeFinished_def
                  FutureImpl_Make_def is_finished_def IsFutureFinished_def)
  then have wf: "\<forall>f \<in> set three_finished. is_finished f \<longrightarrow> result_m f \<noteq> None"
    by (simp add: three_finished_def Future_MakeFinished_def)
  have wf2: "\<forall>f \<in> set (three_finished @ [Future_Make :: nat Future]).
               is_finished f \<longrightarrow> result_m f \<noteq> None"
    using wf by (simp add: Future_Make_def FutureImpl_Make_def is_finished_def IsFutureFinished_def)
  have wf3: "\<forall>f \<in> set [Future_MakeFinished Status_OK :: nat Future].
               is_finished f \<longrightarrow> result_m f \<noteq> None"
    by (simp add: Future_MakeFinished_def)
  have bad: "\<not> Status_ok (Status_Invalid ''b'')" and good: "Status_ok Status_OK"
    by (simp_all add: Status_ok_def Status_Invalid_def Status_ctor_def Status_OK_def)
  have second: "(\<forall>f \<in> set three_finished. is_finished f) \<and> 1 < length three_finished \<and>
            result_m (three_finished ! 1) = Some (Status_Invalid ''b'') \<and>
            \<not> Status_ok (Status_Invalid ''b'') \<and>
            (\<forall>j < 1. \<exists>t. result_m (three_finished ! j) = Some t \<and> Status_ok t)"
    using fin bad good by (simp add: three_finished_def Future_MakeFinished_def)
  have pending: "\<exists>f \<in> set (three_finished @ [Future_Make :: nat Future]). \<not> is_finished f"
    by (simp add: Future_Make_def FutureImpl_Make_def is_finished_def IsFutureFinished_def)
  have allok: "\<forall>f \<in> set [Future_MakeFinished Status_OK :: nat Future].
                 is_finished f \<and> (\<exists>t. result_m f = Some t \<and> Status_ok t)"
    using good by (simp add: Future_MakeFinished_def FutureImpl_MakeFinished_def
                  FutureImpl_Make_def is_finished_def IsFutureFinished_def)
  from AllFinished_earliest_failure [OF wf, of 1 "Status_Invalid ''b''"] second
  have "AllFinished three_finished = Some (Status_Invalid ''b'')" by blast
  moreover from AllFinished_earliest_failure [OF wf2, of 0 Status_OK] pending
  have "AllFinished (three_finished @ [Future_Make :: nat Future]) = None" by blast
  moreover from AllFinished_earliest_failure [OF wf3, of 0 Status_OK] allok
  have "AllFinished [Future_MakeFinished Status_OK :: nat Future] = Some Status_OK" by blast
  ultimately show ?thesis by simp
qed

end
